theory Spec2Isabelle
  imports Complex_Main
begin

section \<open>Values, errors and the object store\<close>

text \<open>
  The decision-path explanation of \<^verbatim>\<open>eli5/xgboost.py\<close>: the dump parser
  (\<^verbatim>\<open>_parse_dump_line\<close>, \<^verbatim>\<open>parse_tree_dump\<close>), the leaf indexer
  (\<^verbatim>\<open>indexed_leafs\<close>), the path decomposition (\<^verbatim>\<open>target_feature_weights\<close>) and
  the per-class split (\<^verbatim>\<open>prediction_feature_weights\<close>).

  Conventions of the embedding.
  \<^item> Python \<^verbatim>\<open>float\<close> values are exact rationals (\<^typ>\<open>rat\<close>): rounding to binary64,
    infinities and NaN are not represented.
  \<^item> Strings are lists of 8-bit characters; \<^verbatim>\<open>\d\<close> is an ASCII digit and \<^verbatim>\<open>\w\<close> an
    ASCII letter, digit or underscore.
  \<^item> Every exception of the source is a value of \<open>error\<close>; a function that may raise
    returns \<open>error + 'a\<close> with \<open>Inl\<close> for the exception.
  \<^item> The nodes of a tree are Python dicts that the parser and the indexer mutate in
    place and that refer to each other (\<^verbatim>\<open>children\<close>, \<^verbatim>\<open>parent\<close>). They live in a
    store: a list of node records, a reference being an index into it.
\<close>

datatype error =
    ValueError string
  | AssertionError
  | KeyError
  | AttributeError
  | IndexError
  | TypeError
  | RecursionError
  | MemoryError

type_synonym ref = nat

text \<open>
  One dict of the source. A key that may be absent is an \<open>option\<close> field. The key
  \<^verbatim>\<open>children\<close> is only ever created by \<^verbatim>\<open>setdefault('children', []).append(node)\<close>, so
  the list under it is never empty: the field \<open>children\<close> is the list of child
  references, and \<open>[]\<close> stands for the absent key.
\<close>

record node =
  depth :: "nat option"
  nodeid :: nat
  split :: "string option"
  split_condition :: "rat option"
  yes :: "nat option"
  no :: "nat option"
  missing :: "nat option"
  leaf :: "rat option"
  children :: "ref list"
  parent :: "ref option"

type_synonym heap = "node list"

section \<open>Characters, integers and floats\<close>

text \<open>
  The text of a dump is a list of 8-bit characters. The classes \<^verbatim>\<open>\d\<close>, \<^verbatim>\<open>\w\<close> and the
  whitespace of \<^verbatim>\<open>strip\<close> are given for ASCII text, which is what the booster writes for
  its default feature names; for byte strings these are the classes of \<^verbatim>\<open>re\<close>.
\<close>

definition TAB :: char where
  "TAB = CHR 0x09"

definition NL :: char where
  "NL = CHR 0x0A"

definition is_digit :: "char \<Rightarrow> bool" where
  "is_digit c = (48 \<le> (of_char c :: nat) \<and> (of_char c :: nat) \<le> 57)"

definition is_alpha :: "char \<Rightarrow> bool" where
  "is_alpha c =
     ((65 \<le> (of_char c :: nat) \<and> (of_char c :: nat) \<le> 90) \<or>
      (97 \<le> (of_char c :: nat) \<and> (of_char c :: nat) \<le> 122))"

definition is_word :: "char \<Rightarrow> bool" where
  "is_word c = (is_alpha c \<or> is_digit c \<or> c = CHR ''_'')"

definition is_space :: "char \<Rightarrow> bool" where
  "is_space c = (c = CHR '' '' \<or> (9 \<le> (of_char c :: nat) \<and> (of_char c :: nat) \<le> 13))"

definition digit_val :: "char \<Rightarrow> nat" where
  "digit_val c = of_char c - 48"

text \<open>\<^verbatim>\<open>int(s)\<close> on a string of decimal digits.\<close>

definition int_of_digits :: "string \<Rightarrow> nat" where
  "int_of_digits s = foldl (\<lambda>a c. 10 * a + digit_val c) 0 s"

text \<open>
  \<^verbatim>\<open>float(s)\<close> on the decimal literals of a dump: surrounding whitespace, an optional
  sign, digits with an optional fraction (at least one digit in all), an optional
  exponent. Anything else is the \<^verbatim>\<open>ValueError\<close> of \<^verbatim>\<open>float\<close>. (Python also reads
  \<^verbatim>\<open>inf\<close>, \<^verbatim>\<open>nan\<close> and digit groups with underscores, which have no rational value
  here.)
\<close>

definition strip :: "string \<Rightarrow> string" where
  "strip s = rev (dropWhile is_space (rev (dropWhile is_space s)))"

fun sign_of :: "string \<Rightarrow> int \<times> string" where
  "sign_of [] = (1, [])"
| "sign_of (c # r) =
     (if c = CHR ''+'' then (1, r) else if c = CHR ''-'' then (- 1, r) else (1, c # r))"

fun exponent_of :: "string \<Rightarrow> int option" where
  "exponent_of [] = Some 0"
| "exponent_of (c # r) =
     (if c = CHR ''e'' \<or> c = CHR ''E'' then
        (case sign_of r of (sg, ds) \<Rightarrow>
           if ds \<noteq> [] \<and> list_all is_digit ds then Some (sg * int (int_of_digits ds)) else None)
      else None)"

definition scale10 :: "rat \<Rightarrow> int \<Rightarrow> rat" where
  "scale10 m e = (if 0 \<le> e then m * 10 ^ nat e else m / 10 ^ nat (- e))"

definition float_of_string :: "string \<Rightarrow> rat option" where
  "float_of_string s =
     (case sign_of (strip s) of (sg, r) \<Rightarrow>
        let ip = takeWhile is_digit r;
            r1 = dropWhile is_digit r;
            fp = (case r1 of [] \<Rightarrow> [] | c # t \<Rightarrow> if c = CHR ''.'' then takeWhile is_digit t else []);
            r2 = (case r1 of [] \<Rightarrow> [] | c # t \<Rightarrow> if c = CHR ''.'' then dropWhile is_digit t else r1)
        in if ip = [] \<and> fp = [] then None
           else (case exponent_of r2 of
                   None \<Rightarrow> None
                 | Some e \<Rightarrow>
                     Some (scale10 (of_int sg * of_nat (int_of_digits (ip @ fp)) / 10 ^ length fp) e)))"

definition py_float :: "string \<Rightarrow> error + rat" where
  "py_float s =
     (case float_of_string s of
        None \<Rightarrow> Inl (ValueError (''could not convert string to float: '' @ s))
      | Some v \<Rightarrow> Inr v)"

section \<open>The dump parser\<close>

subsection \<open>The two regular expressions\<close>

text \<open>
  A pattern is a sequence of items: a literal, \<^verbatim>\<open>c*\<close> or \<^verbatim>\<open>c+\<close> for a character class
  \<open>c\<close>; each repetition is a group. Both patterns of the source are anchored, and every
  repetition in them is followed by a literal that its class excludes (or by the end of
  the line), so the only possible match gives each repetition the longest run of its
  class: a group is read with \<open>takeWhile\<close>. \<^verbatim>\<open>$\<close> matches at the end of the string and
  before one final newline. The result is \<^verbatim>\<open>groups()\<close>, \<open>None\<close> when there is no match.
\<close>

datatype item = Star "char \<Rightarrow> bool" | Plus "char \<Rightarrow> bool" | Lit string

fun lit :: "string \<Rightarrow> string \<Rightarrow> string option" where
  "lit [] s = Some s"
| "lit (p # ps) [] = None"
| "lit (p # ps) (c # s) = (if p = c then lit ps s else None)"

definition at_end :: "string \<Rightarrow> bool" where
  "at_end s = (s = [] \<or> s = [NL])"

fun re_match :: "item list \<Rightarrow> string \<Rightarrow> string list option" where
  "re_match [] s = (if at_end s then Some [] else None)"
| "re_match (Star P # its) s =
     map_option ((#) (takeWhile P s)) (re_match its (dropWhile P s))"
| "re_match (Plus P # its) s =
     (if takeWhile P s = [] then None
      else map_option ((#) (takeWhile P s)) (re_match its (dropWhile P s)))"
| "re_match (Lit p # its) s =
     (case lit p s of None \<Rightarrow> None | Some r \<Rightarrow> re_match its r)"

text \<open>\<^verbatim>\<open>'^(\t*)(\d+):\[(\w+)<([^\]]+)\] yes=(\d+),no=(\d+),missing=(\d+)$'\<close>\<close>

definition branch_re :: "item list" where
  "branch_re =
     [Star (\<lambda>c. c = TAB), Plus is_digit, Lit '':['', Plus is_word, Lit ''<'',
      Plus (\<lambda>c. c \<noteq> CHR '']''), Lit ''] yes='', Plus is_digit, Lit '',no='',
      Plus is_digit, Lit '',missing='', Plus is_digit]"

text \<open>\<^verbatim>\<open>'^(\t*)(\d+):leaf=(.*)$'\<close>; \<^verbatim>\<open>.\<close> is any character but a newline.\<close>

definition leaf_re :: "item list" where
  "leaf_re = [Star (\<lambda>c. c = TAB), Plus is_digit, Lit '':leaf='', Star (\<lambda>c. c \<noteq> NL)]"

subsection \<open>\<^verbatim>\<open>_parse_dump_line\<close>\<close>

definition branch_node :: "nat \<Rightarrow> nat \<Rightarrow> string \<Rightarrow> rat \<Rightarrow> nat \<Rightarrow> nat \<Rightarrow> nat \<Rightarrow> node" where
  "branch_node d i f c y n m =
     \<lparr>depth = Some d, nodeid = i, split = Some f, split_condition = Some c,
      yes = Some y, no = Some n, missing = Some m, leaf = None, children = [],
      parent = None\<rparr>"

definition leaf_node :: "nat \<Rightarrow> rat \<Rightarrow> node" where
  "leaf_node i v =
     \<lparr>depth = None, nodeid = i, split = None, split_condition = None,
      yes = None, no = None, missing = None, leaf = Some v, children = [],
      parent = None\<rparr>"

text \<open>
  The groups of a match are \<open>g ! 0\<close>, \<open>g ! 1\<close>, ... in the order of the pattern:
  \<^verbatim>\<open>tabs, node_id, feature, condition, yes, no, missing\<close> for a branch and
  \<^verbatim>\<open>tabs, node_id, value\<close> for a leaf.
\<close>

definition parse_dump_line :: "string \<Rightarrow> error + (nat \<times> node)" where
  "parse_dump_line line =
     (case re_match branch_re line of
        Some g \<Rightarrow>
          (case py_float (g ! 3) of
             Inl e \<Rightarrow> Inl e
           | Inr c \<Rightarrow>
               Inr (length (g ! 0),
                    branch_node (length (g ! 0)) (int_of_digits (g ! 1)) (g ! 2) c
                      (int_of_digits (g ! 4)) (int_of_digits (g ! 5)) (int_of_digits (g ! 6))))
      | None \<Rightarrow>
          (case re_match leaf_re line of
             Some g \<Rightarrow>
               (case py_float (g ! 2) of
                  Inl e \<Rightarrow> Inl e
                | Inr v \<Rightarrow> Inr (length (g ! 0), leaf_node (int_of_digits (g ! 1)) v))
           | None \<Rightarrow> Inl (ValueError (''Line in unexpected format: '' @ line))))"

subsection \<open>\<^verbatim>\<open>parse_tree_dump\<close>\<close>

text \<open>\<^verbatim>\<open>text_dump.split('\n')\<close>.\<close>

fun split_nl :: "string \<Rightarrow> string list" where
  "split_nl [] = [[]]"
| "split_nl (c # s) =
     (if c = NL then [] # split_nl s
      else (case split_nl s of [] \<Rightarrow> [[c]] | l # ls \<Rightarrow> (c # l) # ls))"

text \<open>
  The state of the loop: \<^verbatim>\<open>result\<close>, \<^verbatim>\<open>stack\<close> (a list of references) and the store.
  One iteration: a new dict is allocated at the end of the store; at depth 0 it becomes
  the result (the \<^verbatim>\<open>assert not stack\<close> fails on a non-empty stack); otherwise it is
  appended to the children of the node on top of the (possibly truncated) stack, which
  every holder of that reference sees.
\<close>

type_synonym parse_state = "ref option \<times> ref list \<times> heap"

definition append_child :: "heap \<Rightarrow> ref \<Rightarrow> ref \<Rightarrow> heap" where
  "append_child h t a = h[t := (h ! t)\<lparr>children := children (h ! t) @ [a]\<rparr>]"

definition parse_step :: "parse_state \<Rightarrow> string \<Rightarrow> error + parse_state" where
  "parse_step st line =
     (case st of (result, stack, h) \<Rightarrow>
        if line = [] then Inr (result, stack, h)
        else (case parse_dump_line line of
                Inl e \<Rightarrow> Inl e
              | Inr (d, nd) \<Rightarrow>
                  if d = 0 then
                    (if stack \<noteq> [] then Inl AssertionError
                     else Inr (Some (length h), stack @ [length h], h @ [nd]))
                  else if d > length stack then Inl (ValueError ''Unexpected dump structure'')
                  else
                    (let stack' = (if d < length stack then take d stack else stack)
                     in Inr (result, stack' @ [length h],
                             append_child (h @ [nd]) (last stack') (length h)))))"

fun parse_lines :: "parse_state \<Rightarrow> string list \<Rightarrow> error + parse_state" where
  "parse_lines st [] = Inr st"
| "parse_lines st (line # ls) =
     (case parse_step st line of Inl e \<Rightarrow> Inl e | Inr st' \<Rightarrow> parse_lines st' ls)"

text \<open>The returned pair is \<^verbatim>\<open>result\<close> (\<open>None\<close> is Python's \<^verbatim>\<open>None\<close>) and the store it points into.\<close>

definition parse_tree_dump :: "string \<Rightarrow> error + (ref option \<times> heap)" where
  "parse_tree_dump text_dump =
     (case parse_lines (None, [], []) (split_nl text_dump) of
        Inl e \<Rightarrow> Inl e
      | Inr (result, stack, h) \<Rightarrow> Inr (result, h))"

section \<open>The leaf indexer\<close>

text \<open>\<^verbatim>\<open>np.mean([child['leaf'] for child in parent['children']])\<close>\<close>

definition mean_leafs :: "heap \<Rightarrow> ref list \<Rightarrow> error + rat" where
  "mean_leafs h cs =
     (if list_ex (\<lambda>c. leaf (h ! c) = None) cs then Inl KeyError
      else Inr (sum_list (map (\<lambda>c. the (leaf (h ! c))) cs) / of_nat (length cs)))"

text \<open>
  \<^verbatim>\<open>indexed_leafs\<close> is recursive on the object graph. Its first argument is the number
  of nested calls the interpreter still allows (its recursion limit); when it is used
  up the call is a \<^verbatim>\<open>RecursionError\<close>. \<open>index_children\<close> is the \<^verbatim>\<open>for child in
  parent['children']\<close> loop, with the dict \<^verbatim>\<open>indexed\<close> and the store as its state.
\<close>

type_synonym leaf_index = "nat \<rightharpoonup> ref"

fun indexed_leafs :: "nat \<Rightarrow> heap \<Rightarrow> ref \<Rightarrow> error + (leaf_index \<times> heap)"
  and index_children ::
    "nat \<Rightarrow> ref \<Rightarrow> ref list \<Rightarrow> leaf_index \<times> heap \<Rightarrow> error + (leaf_index \<times> heap)" where
  "indexed_leafs 0 h p = Inl RecursionError"
| "indexed_leafs (Suc k) h p =
     (if children (h ! p) = [] then Inl KeyError
      else (case index_children k p (children (h ! p)) (Map.empty, h) of
              Inl e \<Rightarrow> Inl e
            | Inr (indexed, h1) \<Rightarrow>
                (case mean_leafs h1 (children (h1 ! p)) of
                   Inl e \<Rightarrow> Inl e
                 | Inr m \<Rightarrow> Inr (indexed, h1[p := (h1 ! p)\<lparr>leaf := Some m\<rparr>]))))"
| "index_children k p [] st = Inr st"
| "index_children k p (c # cs) (indexed, h) =
     (let h1 = h[c := (h ! c)\<lparr>parent := Some p\<rparr>]
      in if leaf (h1 ! c) \<noteq> None
         then index_children k p cs (indexed(nodeid (h1 ! c) \<mapsto> c), h1)
         else (case indexed_leafs k h1 c of
                 Inl e \<Rightarrow> Inl e
               | Inr (sub, h2) \<Rightarrow> index_children k p cs (indexed ++ sub, h2)))"

section \<open>The path decomposition\<close>

text \<open>
  Of the \<^verbatim>\<open>feature_names\<close> object the source reads \<^verbatim>\<open>len(feature_names)\<close> and
  \<^verbatim>\<open>feature_names.bias_idx\<close>, and nothing else.
\<close>

record feature_names =
  len :: nat
  bias_idx :: int

text \<open>
  An index into a numpy vector of length \<open>n\<close>: a negative index counts from the end, an
  index outside \<open>-n .. n - 1\<close> is an \<^verbatim>\<open>IndexError\<close>.
\<close>

definition np_index :: "nat \<Rightarrow> int \<Rightarrow> error + nat" where
  "np_index n i =
     (let j = (if i < 0 then i + int n else i)
      in if 0 \<le> j \<and> j < int n then Inr (nat j) else Inl IndexError)"

text \<open>\<^verbatim>\<open>'^f(\d+)$'\<close>\<close>

definition f_num_re :: "item list" where
  "f_num_re = [Lit ''f'', Plus is_digit]"

text \<open>
  \<^verbatim>\<open>while 'parent' in path[-1]: path.append(path[-1]['parent'])\<close>. The list grows by one
  reference per iteration; once it is longer than the store a reference has repeated,
  the parent chain is a cycle and the loop only ends when memory does.
\<close>

function parent_path :: "heap \<Rightarrow> ref list \<Rightarrow> error + ref list" where
  "parent_path h path =
     (case parent (h ! last path) of
        None \<Rightarrow> Inr path
      | Some p \<Rightarrow>
          if length h < length path then Inl MemoryError else parent_path h (path @ [p]))"
  by pat_completeness auto
termination
  by (relation "measure (\<lambda>(h, path). Suc (length h) - length path)") auto

text \<open>
  \<^verbatim>\<open>for parent, node in zip(path, path[1:])\<close>. In
  \<^verbatim>\<open>feature_weights[feature_idx] += node['leaf'] - parent['leaf']\<close> the element is read
  first, then the right-hand side is evaluated.
\<close>

definition leaf_delta :: "heap \<Rightarrow> ref \<Rightarrow> ref \<Rightarrow> error + rat" where
  "leaf_delta h p nd =
     (case leaf (h ! nd) of
        None \<Rightarrow> Inl KeyError
      | Some cv \<Rightarrow> (case leaf (h ! p) of None \<Rightarrow> Inl KeyError | Some pv \<Rightarrow> Inr (cv - pv)))"

definition feature_idx_of :: "heap \<Rightarrow> ref \<Rightarrow> error + int" where
  "feature_idx_of h p =
     (case split (h ! p) of
        None \<Rightarrow> Inl KeyError
      | Some s \<Rightarrow>
          (case re_match f_num_re s of
             None \<Rightarrow> Inl AttributeError
           | Some g \<Rightarrow> Inr (int (int_of_digits (g ! 0)) - 1)))"

fun split_deltas :: "heap \<Rightarrow> (ref \<times> ref) list \<Rightarrow> rat list \<Rightarrow> error + rat list" where
  "split_deltas h [] fw = Inr fw"
| "split_deltas h ((p, nd) # ps) fw =
     (case feature_idx_of h p of
        Inl e \<Rightarrow> Inl e
      | Inr feature_idx \<Rightarrow>
          (case np_index (length fw) feature_idx of
             Inl e \<Rightarrow> Inl e
           | Inr i \<Rightarrow>
               (case leaf_delta h p nd of
                  Inl e \<Rightarrow> Inl e
                | Inr d \<Rightarrow> split_deltas h ps (fw[i := fw ! i + d]))))"

text \<open>\<^verbatim>\<open>feature_weights[feature_names.bias_idx] += path[0]['leaf']\<close>\<close>

definition add_bias :: "heap \<Rightarrow> int \<Rightarrow> ref list \<Rightarrow> rat list \<Rightarrow> error + rat list" where
  "add_bias h bias path fw =
     (case np_index (length fw) bias of
        Inl e \<Rightarrow> Inl e
      | Inr i \<Rightarrow>
          (case leaf (h ! hd path) of
             None \<Rightarrow> Inl KeyError
           | Some v \<Rightarrow> Inr (fw[i := fw ! i + v])))"

text \<open>The path of one leaf and its contributions: the body of the loop after \<^verbatim>\<open>score += ...\<close>.\<close>

definition decompose :: "heap \<Rightarrow> int \<Rightarrow> ref \<Rightarrow> rat list \<Rightarrow> error + rat list" where
  "decompose h bias l fw =
     (case parent_path h [l] of
        Inl e \<Rightarrow> Inl e
      | Inr p \<Rightarrow>
          (case split_deltas h (zip (rev p) (tl (rev p))) fw of
             Inl e \<Rightarrow> Inl e
           | Inr fw1 \<Rightarrow> add_bias h bias (rev p) fw1))"

text \<open>\<^verbatim>\<open>leaf = indexed[leaf_id]\<close> and \<^verbatim>\<open>leaf['leaf']\<close>.\<close>

definition lookup_leaf :: "leaf_index \<Rightarrow> heap \<Rightarrow> nat \<Rightarrow> error + (ref \<times> rat)" where
  "lookup_leaf indexed h leaf_id =
     (case indexed leaf_id of
        None \<Rightarrow> Inl KeyError
      | Some l \<Rightarrow> (case leaf (h ! l) of None \<Rightarrow> Inl KeyError | Some v \<Rightarrow> Inr (l, v)))"

text \<open>
  One iteration of \<^verbatim>\<open>for text_dump, leaf_id in zip(tree_dumps, leaf_ids)\<close>. Every dump is
  parsed into objects of its own. \<^verbatim>\<open>indexed_leafs(None)\<close> is a \<^verbatim>\<open>TypeError\<close>.
\<close>

definition index_dump :: "nat \<Rightarrow> string \<Rightarrow> error + (leaf_index \<times> heap)" where
  "index_dump limit text_dump =
     (case parse_tree_dump text_dump of
        Inl e \<Rightarrow> Inl e
      | Inr (None, h) \<Rightarrow> Inl TypeError
      | Inr (Some r, h) \<Rightarrow> indexed_leafs limit h r)"

definition tree_step ::
  "nat \<Rightarrow> int \<Rightarrow> rat \<times> rat list \<Rightarrow> string \<times> nat \<Rightarrow> error + (rat \<times> rat list)" where
  "tree_step limit bias acc item =
     (case index_dump limit (fst item) of
        Inl e \<Rightarrow> Inl e
      | Inr (indexed, h) \<Rightarrow>
          (case lookup_leaf indexed h (snd item) of
             Inl e \<Rightarrow> Inl e
           | Inr (l, v) \<Rightarrow>
               (case decompose h bias l (snd acc) of
                  Inl e \<Rightarrow> Inl e
                | Inr fw \<Rightarrow> Inr (fst acc + v, fw))))"

fun tree_loop ::
  "nat \<Rightarrow> int \<Rightarrow> rat \<times> rat list \<Rightarrow> (string \<times> nat) list \<Rightarrow> error + (rat \<times> rat list)" where
  "tree_loop limit bias acc [] = Inr acc"
| "tree_loop limit bias acc (item # items) =
     (case tree_step limit bias acc item of
        Inl e \<Rightarrow> Inl e
      | Inr acc' \<Rightarrow> tree_loop limit bias acc' items)"

definition target_feature_weights ::
  "nat \<Rightarrow> nat list \<Rightarrow> string list \<Rightarrow> feature_names \<Rightarrow> error + (rat \<times> rat list)" where
  "target_feature_weights limit leaf_ids tree_dumps fnames =
     tree_loop limit (bias_idx fnames) (0, replicate (len fnames) 0) (zip tree_dumps leaf_ids)"

section \<open>The per-class split\<close>

text \<open>\<^verbatim>\<open>range(start, stop, step)\<close> for a positive step.\<close>

function py_range :: "nat \<Rightarrow> nat \<Rightarrow> nat \<Rightarrow> nat list" where
  "py_range start stop step =
     (if step = 0 \<or> stop \<le> start then [] else start # py_range (start + step) stop step)"
  by pat_completeness auto
termination
  by (relation "measure (\<lambda>(start, stop, step). stop - start)") auto

text \<open>\<^verbatim>\<open>xs[start_idx:end_idx]\<close> with \<^verbatim>\<open>end_idx = start_idx + n\<close>.\<close>

definition slice :: "'a list \<Rightarrow> nat \<Rightarrow> nat \<Rightarrow> 'a list" where
  "slice xs start_idx n = take n (drop start_idx xs)"

fun chunk_loop ::
  "nat \<Rightarrow> nat list \<Rightarrow> string list \<Rightarrow> nat \<Rightarrow> feature_names \<Rightarrow> nat list \<Rightarrow>
   error + (rat \<times> rat list) list" where
  "chunk_loop limit leaf_ids tree_dumps n fnames [] = Inr []"
| "chunk_loop limit leaf_ids tree_dumps n fnames (start_idx # rest) =
     (case target_feature_weights limit (slice leaf_ids start_idx n)
             (slice tree_dumps start_idx n) fnames of
        Inl e \<Rightarrow> Inl e
      | Inr sw \<Rightarrow>
          (case chunk_loop limit leaf_ids tree_dumps n fnames rest of
             Inl e \<Rightarrow> Inl e
           | Inr sws \<Rightarrow> Inr (sw # sws)))"

text \<open>
  \<^verbatim>\<open>prediction_feature_weights\<close>, from the point where the booster has given
  \<^verbatim>\<open>leaf_ids\<close> and \<^verbatim>\<open>tree_dumps\<close>; \<open>n_estimators\<close> is \<^verbatim>\<open>clf.n_estimators\<close>. A zero step
  is the \<^verbatim>\<open>ValueError\<close> of \<^verbatim>\<open>range\<close>, a negative one makes the range empty.
\<close>

definition prediction_feature_weights ::
  "nat \<Rightarrow> nat list \<Rightarrow> string list \<Rightarrow> int \<Rightarrow> feature_names \<Rightarrow>
   error + (rat \<times> rat list) list" where
  "prediction_feature_weights limit leaf_ids tree_dumps n_estimators fnames =
     (if length tree_dumps \<noteq> length leaf_ids then Inl AssertionError
      else if n_estimators = 0 then Inl (ValueError ''range() arg 3 must not be zero'')
      else if n_estimators < 0 then Inr []
      else chunk_loop limit leaf_ids tree_dumps (nat n_estimators) fnames
             (py_range 0 (length leaf_ids) (nat n_estimators)))"

section \<open>Inputs used below\<close>

text \<open>\<open>raises x e\<close>: the call \<open>x\<close> ends with the exception \<open>e\<close>.\<close>

definition raises :: "error + 'a \<Rightarrow> error \<Rightarrow> bool" where
  "raises x e = (case x of Inl e' \<Rightarrow> e' = e | Inr y \<Rightarrow> False)"

text \<open>
  The dump of the documented scenario, as it is written (no line is indented), and the
  same three lines with the two leaves one tab deep, as the booster prints them.
\<close>

definition scenario_dump :: string where
  "scenario_dump =
     ''0:[f0<0.5] yes=1,no=2,missing=1'' @ [NL] @ ''1:leaf=-0.2'' @ [NL] @
     ''2:leaf=0.4'' @ [NL]"

definition scenario_dump_indented :: string where
  "scenario_dump_indented =
     ''0:[f0<0.5] yes=1,no=2,missing=1'' @ [NL] @ [TAB] @ ''1:leaf=-0.2'' @ [NL] @
     [TAB] @ ''2:leaf=0.4'' @ [NL]"

text \<open>The feature names \<^verbatim>\<open>{f0: 0, bias: 1}\<close>: two entries, the bias at index 1.\<close>

definition scenario_names :: feature_names where
  "scenario_names = \<lparr>len = 2, bias_idx = 1\<rparr>"

text \<open>A dump that is one leaf line.\<close>

definition single_leaf_dump :: string where
  "single_leaf_dump = ''0:leaf=0.4'' @ [NL]"

text \<open>Three malformed dumps: a line of neither shape, a depth jump, a second root.\<close>

definition bad_line_dump :: string where
  "bad_line_dump = ''0:[f0<0.5] yes=1,no=2,missing=1'' @ [NL] @ [TAB] @ ''1:leaf 3''"

definition depth_jump_dump :: string where
  "depth_jump_dump =
     ''0:[f0<0.5] yes=1,no=2,missing=1'' @ [NL] @ [TAB, TAB] @ ''1:leaf=-0.2''"

definition two_roots_dump :: string where
  "two_roots_dump = ''0:leaf=1'' @ [NL] @ ''0:leaf=2''"

text \<open>
  The text that a pattern matches with given groups (\<open>render\<close>), and the condition under
  which these are the groups of the match (\<open>fits\<close>): every group is in its class, a
  \<^verbatim>\<open>+\<close> group is not empty, and what follows a group does not start in its class.
\<close>

fun render :: "item list \<Rightarrow> string list \<Rightarrow> string" where
  "render [] gs = []"
| "render (Lit p # its) gs = p @ render its gs"
| "render (Star P # its) (g # gs) = g @ render its gs"
| "render (Plus P # its) (g # gs) = g @ render its gs"
| "render (Star P # its) [] = []"
| "render (Plus P # its) [] = []"

fun fits :: "item list \<Rightarrow> string list \<Rightarrow> bool" where
  "fits [] gs = (gs = [])"
| "fits (Lit p # its) gs = fits its gs"
| "fits (Star P # its) (g # gs) =
     (list_all P g \<and> (render its gs = [] \<or> \<not> P (hd (render its gs))) \<and> fits its gs)"
| "fits (Plus P # its) (g # gs) =
     (g \<noteq> [] \<and> list_all P g \<and> (render its gs = [] \<or> \<not> P (hd (render its gs))) \<and>
      fits its gs)"
| "fits (Star P # its) [] = False"
| "fits (Plus P # its) [] = False"





text \<open>
  Two lines that differ at most in the value of \<^verbatim>\<open>missing=\<close>: they are equal, or both are
  branch lines whose first six groups (\<^verbatim>\<open>tabs, node_id, feature, condition, yes, no\<close>)
  are the same. Two dumps are the same but for the missing ids when their lines
  correspond in this way, in order. Two stores are related by \<open>heap_rel\<close> when they hold
  the same objects up to the \<^verbatim>\<open>missing\<close> entries.
\<close>

definition same_but_missing :: "string \<Rightarrow> string \<Rightarrow> bool" where
  "same_but_missing l1 l2 =
     (l1 = l2 \<or>
      (case re_match branch_re l1 of
         None \<Rightarrow> False
       | Some g1 \<Rightarrow>
           (case re_match branch_re l2 of
              None \<Rightarrow> False
            | Some g2 \<Rightarrow> take 6 g1 = take 6 g2)))"

definition same_dump :: "string \<Rightarrow> string \<Rightarrow> bool" where
  "same_dump d1 d2 = list_all2 same_but_missing (split_nl d1) (split_nl d2)"

definition forget_missing :: "node \<Rightarrow> node" where
  "forget_missing n = n\<lparr>missing := None\<rparr>"

definition heap_rel :: "heap \<Rightarrow> heap \<Rightarrow> bool" where
  "heap_rel h1 h2 = (map forget_missing h1 = map forget_missing h2)"

text \<open>The indented scenario dump with the missing id of the root changed from 1 to 2.\<close>

definition scenario_dump_missing_2 :: string where
  "scenario_dump_missing_2 =
     ''0:[f0<0.5] yes=1,no=2,missing=2'' @ [NL] @ [TAB] @ ''1:leaf=-0.2'' @ [NL] @
     [TAB] @ ''2:leaf=0.4'' @ [NL]"

text \<open>
  A tree of one split on \<^verbatim>\<open>f1\<close> with the leaves \<open>0\<close> and \<open>v\<close>, and six such trees with
  the values 1, 2, 4, 8, 16, 32, so that the score of a class tells which trees it got.
\<close>

definition one_split_dump :: "string \<Rightarrow> string" where
  "one_split_dump v =
     ''0:[f1<0.5] yes=1,no=2,missing=1'' @ [NL] @ [TAB] @ ''1:leaf=0'' @ [NL] @
     [TAB] @ ''2:leaf='' @ v @ [NL]"

definition six_dumps :: "string list" where
  "six_dumps = map one_split_dump [''1'', ''2'', ''4'', ''8'', ''16'', ''32'']"

section \<open>Properties of the parser\<close>

lemma split_nl_replicate: "split_nl (replicate n NL) = replicate (Suc n) []"
  by (induction n) simp_all

lemma parse_lines_empty_lines:
  "parse_lines st (replicate n []) = Inr st"
  by (induction n) (simp_all add: parse_step_def split: prod.splits)

text \<open>
  C10. On the empty string, and on a dump made of empty lines only, \<^verbatim>\<open>parse_tree_dump\<close>
  returns \<^verbatim>\<open>None\<close>: no tree and no error.
\<close>

theorem parse_tree_dump_empty:
  "parse_tree_dump (replicate n NL) = Inr (None, [])"
  by (simp add: parse_tree_dump_def split_nl_replicate parse_lines_empty_lines
      del: replicate_Suc)

section \<open>The documented scenario\<close>

text \<open>
  C1 (as stated). In the dump of the scenario every line is at depth 0, so the second
  line meets a non-empty stack and the \<^verbatim>\<open>assert not stack\<close> of \<^verbatim>\<open>parse_tree_dump\<close>
  fails: the decomposition raises and returns neither a score nor a vector.
\<close>

theorem scenario_as_written_raises:
  "target_feature_weights 1000 [2] [scenario_dump] scenario_names = Inl AssertionError"
  by code_simp

text \<open>
  C1 (amended). With the two leaf lines indented by one tab the dump parses; the root
  aggregate is \<open>mean(-0.2, 0.4) = 0.1\<close>, leaf 2 is indexed with value \<open>0.4\<close>, and the
  decomposition for leaf 2 returns the score \<open>0.4\<close> and a vector of length 2 whose
  entries sum to \<open>0.4\<close> (the delta \<open>0.3\<close> and the root aggregate \<open>0.1\<close>).
\<close>

theorem scenario_indented_decomposition:
  "(case index_dump 1000 scenario_dump_indented of
      Inl e \<Rightarrow> False
    | Inr (indexed, h) \<Rightarrow>
        indexed 2 = Some 2 \<and> leaf (h ! 2) = Some (2 / 5) \<and> leaf (h ! 0) = Some (1 / 10) \<and>
        parent (h ! 2) = Some 0) \<and>
   (case target_feature_weights 1000 [2] [scenario_dump_indented] scenario_names of
      Inl e \<Rightarrow> False
    | Inr (score, fw) \<Rightarrow> score = 2 / 5 \<and> length fw = 2 \<and> sum_list fw = 2 / 5)"
  by code_simp

section \<open>A tree that is a single leaf\<close>

text \<open>
  C6 (failing input). The dump of one leaf line parses to a root that is a leaf;
  \<^verbatim>\<open>indexed_leafs\<close> reads \<^verbatim>\<open>parent['children']\<close> of it and raises \<^verbatim>\<open>KeyError\<close>: no
  mapping is returned, and the root leaf is not in any index.
\<close>

theorem indexed_leafs_single_leaf_raises:
  "parse_tree_dump single_leaf_dump = Inr (Some 0, [leaf_node 0 (2 / 5)]) \<and>
   raises (indexed_leafs 1000 [leaf_node 0 (2 / 5)] 0) KeyError \<and>
   target_feature_weights 1000 [0] [single_leaf_dump] scenario_names = Inl KeyError"
  by code_simp

section \<open>The per-class split of the ensemble\<close>

text \<open>
  C8 (as stated). Five dumps with five leaf ids and two estimators per class are not
  rejected: the range of start indices is \<open>0, 2, 4\<close>, the last slice holds the one
  remaining tree, and three results are returned.
\<close>

theorem five_dumps_not_rejected:
  "prediction_feature_weights 1000 [2, 2, 2, 2, 2] (replicate 5 scenario_dump_indented) 2
     scenario_names =
   Inr [(4 / 5, [0, 4 / 5]), (4 / 5, [0, 4 / 5]), (2 / 5, [0, 2 / 5])]"
  by code_simp

lemma py_range_closed:
  "0 < n \<Longrightarrow> py_range s stop n = map (\<lambda>k. s + k * n) [0..<(stop + n - 1 - s) div n]"
proof (induction s stop n rule: py_range.induct)
  case (1 s stop n)
  show ?case
  proof (cases "stop \<le> s")
    case True
    with "1.prems" have "stop + n - 1 - s < n" by arith
    then have "(stop + n - 1 - s) div n = 0" by simp
    with True show ?thesis by (simp del: py_range.simps add: py_range.simps [of s stop n])
  next
    case False
    with "1.prems" have c: "\<not> (n = 0 \<or> stop \<le> s)" by simp
    from "1.IH" [OF c "1.prems"]
    have ih: "py_range (s + n) stop n =
        map (\<lambda>k. s + n + k * n) [0..<(stop + n - 1 - (s + n)) div n]" .
    from False "1.prems" have "stop + n - 1 - s = (stop + n - 1 - (s + n)) + n" by arith
    then have "(stop + n - 1 - s) div n = ((stop + n - 1 - (s + n)) + n) div n"
      by (rule arg_cong)
    also have "\<dots> = Suc ((stop + n - 1 - (s + n)) div n)"
      using "1.prems" by (simp only: div_add_self2)
    finally have d: "(stop + n - 1 - s) div n = Suc ((stop + n - 1 - (s + n)) div n)" .
    have m: "map (\<lambda>k. s + k * n) [0..<Suc j] = s # map (\<lambda>k. s + n + k * n) [0..<j]" for j
      by (simp add: upt_conv_Cons map_Suc_upt [symmetric] del: upt_Suc) 
    from c have "py_range s stop n = s # py_range (s + n) stop n"
      by (simp del: py_range.simps add: py_range.simps [of s stop n])
    with ih d m show ?thesis by (simp del: py_range.simps)
  qed
qed

lemma chunk_loop_returns:
  "chunk_loop limit ids ds n fn starts = Inr rs \<longleftrightarrow>
   list_all2 (\<lambda>st r. target_feature_weights limit (slice ids st n) (slice ds st n) fn = Inr r)
     starts rs"
proof (induction starts arbitrary: rs)
  case Nil
  show ?case by auto
next
  case (Cons st starts)
  let ?t = "target_feature_weights limit (slice ids st n) (slice ds st n) fn"
  show ?case
  proof (cases ?t)
    case (Inl e)
    then show ?thesis by (cases rs) auto
  next
    case t: (Inr r)
    show ?thesis
    proof (cases "chunk_loop limit ids ds n fn starts")
      case (Inl e)
      have no: "\<not> list_all2 (\<lambda>st r. target_feature_weights limit (slice ids st n)
          (slice ds st n) fn = Inr r) starts rs'" for rs'
        using Cons.IH [of rs'] Inl by simp
      show ?thesis
      proof (cases rs)
        case Nil
        with t Inl show ?thesis by simp
      next
        case (Cons r' rs')
        with t Inl no [of rs'] show ?thesis by simp
      qed
    next
      case (Inr rs0)
      have yes: "list_all2 (\<lambda>st r. target_feature_weights limit (slice ids st n)
          (slice ds st n) fn = Inr r) starts rs' \<longleftrightarrow> rs0 = rs'" for rs'
        using Cons.IH [of rs'] Inr by simp
      show ?thesis
      proof (cases rs)
        case Nil
        with t Inr show ?thesis by simp
      next
        case (Cons r' rs')
        with t Inr yes [of rs'] show ?thesis by auto
      qed
    qed
  qed
qed

lemma chunk_loop_raises:
  "chunk_loop limit ids ds n fn starts = Inl e \<longleftrightarrow>
   (\<exists>i<length starts.
      target_feature_weights limit (slice ids (starts ! i) n) (slice ds (starts ! i) n) fn =
        Inl e \<and>
      (\<forall>j<i. \<exists>r. target_feature_weights limit (slice ids (starts ! j) n)
                    (slice ds (starts ! j) n) fn = Inr r))"
proof (induction starts)
  case Nil
  show ?case by simp
next
  case (Cons st starts)
  let ?t = "\<lambda>s. target_feature_weights limit (slice ids s n) (slice ds s n) fn"
  show ?case
  proof (cases "?t st")
    case (Inl e')
    show ?thesis
    proof
      assume "chunk_loop limit ids ds n fn (st # starts) = Inl e"
      with Inl have "e' = e" by simp
      with Inl show "\<exists>i<length (st # starts). ?t ((st # starts) ! i) = Inl e \<and>
          (\<forall>j<i. \<exists>r. ?t ((st # starts) ! j) = Inr r)"
        by (intro exI [of _ 0]) simp
    next
      assume "\<exists>i<length (st # starts). ?t ((st # starts) ! i) = Inl e \<and>
          (\<forall>j<i. \<exists>r. ?t ((st # starts) ! j) = Inr r)"
      then obtain i where i: "?t ((st # starts) ! i) = Inl e"
        "\<forall>j<i. \<exists>r. ?t ((st # starts) ! j) = Inr r" by blast
      have "i = 0"
      proof (rule ccontr)
        assume "i \<noteq> 0"
        with i(2) have "\<exists>r. ?t ((st # starts) ! 0) = Inr r" by blast
        with Inl show False by simp
      qed
      with i(1) Inl show "chunk_loop limit ids ds n fn (st # starts) = Inl e" by simp
    qed
  next
    case (Inr r)
    have "chunk_loop limit ids ds n fn (st # starts) = Inl e \<longleftrightarrow>
        chunk_loop limit ids ds n fn starts = Inl e"
      using Inr by (simp split: sum.splits)
    also have "\<dots> \<longleftrightarrow> (\<exists>i<length starts. ?t (starts ! i) = Inl e \<and>
        (\<forall>j<i. \<exists>r. ?t (starts ! j) = Inr r))"
      by (rule Cons.IH)
    also have "\<dots> \<longleftrightarrow> (\<exists>i<length (st # starts). ?t ((st # starts) ! i) = Inl e \<and>
        (\<forall>j<i. \<exists>r. ?t ((st # starts) ! j) = Inr r))"
    proof
      assume "\<exists>i<length starts. ?t (starts ! i) = Inl e \<and>
        (\<forall>j<i. \<exists>r. ?t (starts ! j) = Inr r)"
      then obtain i where i: "i < length starts" "?t (starts ! i) = Inl e"
        "\<forall>j<i. \<exists>r. ?t (starts ! j) = Inr r" by blast
      have "\<forall>j<Suc i. \<exists>r. ?t ((st # starts) ! j) = Inr r"
      proof (intro allI impI)
        fix j assume "j < Suc i"
        with i(3) Inr show "\<exists>r. ?t ((st # starts) ! j) = Inr r" by (cases j) auto
      qed
      with i(1,2) show "\<exists>i<length (st # starts). ?t ((st # starts) ! i) = Inl e \<and>
        (\<forall>j<i. \<exists>r. ?t ((st # starts) ! j) = Inr r)"
        by (intro exI [of _ "Suc i"]) simp
    next
      assume "\<exists>i<length (st # starts). ?t ((st # starts) ! i) = Inl e \<and>
        (\<forall>j<i. \<exists>r. ?t ((st # starts) ! j) = Inr r)"
      then obtain i where i: "i < length (st # starts)" "?t ((st # starts) ! i) = Inl e"
        "\<forall>j<i. \<exists>r. ?t ((st # starts) ! j) = Inr r" by blast
      from i(2) Inr obtain i' where i': "i = Suc i'" by (cases i) auto
      have "\<forall>j<i'. \<exists>r. ?t (starts ! j) = Inr r"
      proof (intro allI impI)
        fix j assume "j < i'"
        with i' have "Suc j < i" by simp
        with i(3) have "\<exists>r. ?t ((st # starts) ! Suc j) = Inr r" by blast
        then show "\<exists>r. ?t (starts ! j) = Inr r" by simp
      qed
      with i(1,2) i' show "\<exists>i<length starts. ?t (starts ! i) = Inl e \<and>
        (\<forall>j<i. \<exists>r. ?t (starts ! j) = Inr r)"
        by (intro exI [of _ i']) simp
    qed
    finally show ?thesis .
  qed
qed

text \<open>
  C8 (amended). When the number of dumps differs from the number of leaf ids the
  aggregator fails its assertion, whatever the dumps are: nothing has been parsed or
  decomposed at that point. This is its only shape check. With equal counts and \<open>n > 0\<close>
  estimators per class there are \<open>\<lceil>count / n\<rceil>\<close> classes; class \<open>k\<close> is decomposed from
  the dumps and leaf ids at the positions \<open>k * n, ..., k * n + n - 1\<close> (fewer in the last
  class when the count is not a multiple of \<open>n\<close>). The call returns the list of the
  classes' results when every class returns, and otherwise raises what the first failing
  class raises.
\<close>

theorem prediction_feature_weights_shape:
  "(length tree_dumps \<noteq> length leaf_ids \<longrightarrow>
      prediction_feature_weights limit leaf_ids tree_dumps n_estimators fnames =
      Inl AssertionError) \<and>
   (length tree_dumps = length leaf_ids \<and> 0 < n \<longrightarrow>
      (prediction_feature_weights limit leaf_ids tree_dumps (int n) fnames = Inr rs \<longleftrightarrow>
         length rs = (length leaf_ids + n - 1) div n \<and>
         (\<forall>k<length rs.
            target_feature_weights limit (slice leaf_ids (k * n) n) (slice tree_dumps (k * n) n)
              fnames = Inr (rs ! k))) \<and>
      (prediction_feature_weights limit leaf_ids tree_dumps (int n) fnames = Inl e \<longleftrightarrow>
         (\<exists>k<(length leaf_ids + n - 1) div n.
            target_feature_weights limit (slice leaf_ids (k * n) n) (slice tree_dumps (k * n) n)
              fnames = Inl e \<and>
            (\<forall>j<k. \<exists>r.
               target_feature_weights limit (slice leaf_ids (j * n) n)
                 (slice tree_dumps (j * n) n) fnames = Inr r))))"
proof (intro conjI impI)
  show "prediction_feature_weights limit leaf_ids tree_dumps n_estimators fnames =
      Inl AssertionError" if "length tree_dumps \<noteq> length leaf_ids"
    using that by (simp add: prediction_feature_weights_def)
next
  let ?classes = "(length leaf_ids + n - 1) div n"
  let ?t = "\<lambda>k. target_feature_weights limit (slice leaf_ids (k * n) n)
      (slice tree_dumps (k * n) n) fnames"
  assume a: "length tree_dumps = length leaf_ids \<and> 0 < n"
  then have n: "0 < n" by simp
  have starts: "py_range 0 (length leaf_ids) n = map (\<lambda>k. k * n) [0..<?classes]"
    using py_range_closed [OF n, of 0 "length leaf_ids"] by (simp del: py_range.simps)
  from a have p: "prediction_feature_weights limit leaf_ids tree_dumps (int n) fnames =
      chunk_loop limit leaf_ids tree_dumps n fnames (map (\<lambda>k. k * n) [0..<?classes])"
    by (simp add: prediction_feature_weights_def starts del: py_range.simps)
  show "prediction_feature_weights limit leaf_ids tree_dumps (int n) fnames = Inr rs \<longleftrightarrow>
         length rs = ?classes \<and> (\<forall>k<length rs. ?t k = Inr (rs ! k))"
    unfolding p chunk_loop_returns
    by (auto simp: list_all2_conv_all_nth)
  show "prediction_feature_weights limit leaf_ids tree_dumps (int n) fnames = Inl e \<longleftrightarrow>
         (\<exists>k<?classes. ?t k = Inl e \<and> (\<forall>j<k. \<exists>r. ?t j = Inr r))"
    unfolding p chunk_loop_raises
    by auto
qed

theorem prediction_feature_weights_shape_witness:
  "prediction_feature_weights 1000 [] [bad_line_dump] 2 scenario_names = Inl AssertionError \<and>
   prediction_feature_weights 1000 [2, 2, 2, 2, 2, 2] six_dumps 2 scenario_names =
     Inr [(3, [3 / 2, 3 / 2]), (12, [6, 6]), (48, [24, 24])]"
proof
  show "prediction_feature_weights 1000 [] [bad_line_dump] 2 scenario_names = Inl AssertionError"
    using prediction_feature_weights_shape
      [where tree_dumps = "[bad_line_dump]" and leaf_ids = "[]" and limit = 1000
         and n_estimators = 2 and fnames = scenario_names]
    by simp
next
  let ?ids = "[2, 2, 2, 2, 2, 2] :: nat list"
  let ?rs = "[(3, [3 / 2, 3 / 2]), (12, [6, 6]), (48, [24, 24])] :: (rat \<times> rat list) list"
  have c0: "target_feature_weights 1000 (slice ?ids (0 * 2) 2) (slice six_dumps (0 * 2) 2)
      scenario_names = Inr (?rs ! 0)"
    by code_simp
  have c1: "target_feature_weights 1000 (slice ?ids (1 * 2) 2) (slice six_dumps (1 * 2) 2)
      scenario_names = Inr (?rs ! 1)"
    by code_simp
  have c2: "target_feature_weights 1000 (slice ?ids (2 * 2) 2) (slice six_dumps (2 * 2) 2)
      scenario_names = Inr (?rs ! 2)"
    by code_simp
  have all: "\<forall>k<length ?rs. target_feature_weights 1000 (slice ?ids (k * 2) 2)
      (slice six_dumps (k * 2) 2) scenario_names = Inr (?rs ! k)"
  proof (intro allI impI)
    fix k assume "k < length ?rs"
    then have "k = 0 \<or> k = 1 \<or> k = 2" by auto
    with c0 c1 c2 show "target_feature_weights 1000 (slice ?ids (k * 2) 2)
      (slice six_dumps (k * 2) 2) scenario_names = Inr (?rs ! k)"
      by blast
  qed
  have len: "length six_dumps = length ?ids" by (simp add: six_dumps_def)
  from prediction_feature_weights_shape
      [where tree_dumps = six_dumps and leaf_ids = ?ids and limit = 1000 and n = 2
         and fnames = scenario_names and rs = ?rs] len all
  show "prediction_feature_weights 1000 ?ids six_dumps 2 scenario_names = Inr ?rs"
    by simp
qed

section \<open>Malformed dumps\<close>

lemma parse_lines_append:
  "parse_lines st (xs @ ys) =
     (case parse_lines st xs of Inl e \<Rightarrow> Inl e | Inr st' \<Rightarrow> parse_lines st' ys)"
  by (induction xs arbitrary: st) (auto split: sum.splits)

lemma parse_step_no_match:
  "line \<noteq> [] \<Longrightarrow> re_match branch_re line = None \<Longrightarrow> re_match leaf_re line = None \<Longrightarrow>
   parse_step st line = Inl (ValueError (''Line in unexpected format: '' @ line))"
  by (simp add: parse_step_def parse_dump_line_def split: prod.splits)

lemma parse_step_depth_jump:
  "line \<noteq> [] \<Longrightarrow> parse_dump_line line = Inr (d, nd) \<Longrightarrow> length stack < d \<Longrightarrow>
   parse_step (result, stack, h) line = Inl (ValueError ''Unexpected dump structure'')"
  by (auto simp add: parse_step_def)

lemma parse_step_second_root:
  "line \<noteq> [] \<Longrightarrow> parse_dump_line line = Inr (0, nd) \<Longrightarrow> stack \<noteq> [] \<Longrightarrow>
   parse_step (result, stack, h) line = Inl AssertionError"
  by (simp add: parse_step_def)

text \<open>
  C4 (as stated). A second line at depth 0 meets a non-empty stack; what is raised is
  the \<^verbatim>\<open>AssertionError\<close> of \<^verbatim>\<open>assert not stack\<close>, which is not a \<^verbatim>\<open>ValueError\<close>.
\<close>

theorem second_root_is_assertion_error:
  "parse_tree_dump two_roots_dump = Inl AssertionError"
  by code_simp

text \<open>
  C4 (amended). Let a non-empty line be reached with the lines before it parsed, the
  stack being \<open>stack\<close>. If it matches neither pattern, \<^verbatim>\<open>parse_tree_dump\<close> raises a
  \<^verbatim>\<open>ValueError\<close> whose message ends with the line. If its depth exceeds the length of
  the stack, it raises \<^verbatim>\<open>ValueError('Unexpected dump structure')\<close>. If its depth is 0
  and the stack is not empty, it raises \<^verbatim>\<open>AssertionError\<close>.
\<close>

theorem parse_tree_dump_malformed:
  assumes "split_nl text_dump = pre @ line # post"
    and "parse_lines (None, [], []) pre = Inr (result, stack, h)"
    and "line \<noteq> []"
  shows "(re_match branch_re line = None \<and> re_match leaf_re line = None \<longrightarrow>
            parse_tree_dump text_dump =
            Inl (ValueError (''Line in unexpected format: '' @ line))) \<and>
         (\<forall>d nd. parse_dump_line line = Inr (d, nd) \<and> length stack < d \<longrightarrow>
            parse_tree_dump text_dump = Inl (ValueError ''Unexpected dump structure'')) \<and>
         (\<forall>nd. parse_dump_line line = Inr (0, nd) \<and> stack \<noteq> [] \<longrightarrow>
            parse_tree_dump text_dump = Inl AssertionError)"
  using assms
  by (simp add: parse_tree_dump_def parse_lines_append parse_step_no_match
      parse_step_depth_jump parse_step_second_root)

theorem parse_tree_dump_malformed_witness:
  "parse_tree_dump bad_line_dump =
     Inl (ValueError (''Line in unexpected format: '' @ [TAB] @ ''1:leaf 3'')) \<and>
   parse_tree_dump depth_jump_dump = Inl (ValueError ''Unexpected dump structure'') \<and>
   parse_tree_dump two_roots_dump = Inl AssertionError"
proof -
  let ?root = "''0:[f0<0.5] yes=1,no=2,missing=1''"
  have root: "parse_lines (None, [], []) [?root] =
      Inr (Some 0, [0], [branch_node 0 0 ''f0'' (1 / 2) 1 2 1])"
    by code_simp
  have a1: "split_nl bad_line_dump = [?root] @ ([TAB] @ ''1:leaf 3'') # []"
    by code_simp
  have a2: "re_match branch_re ([TAB] @ ''1:leaf 3'') = None \<and>
      re_match leaf_re ([TAB] @ ''1:leaf 3'') = None"
    by code_simp
  have b1: "split_nl depth_jump_dump = [?root] @ ([TAB, TAB] @ ''1:leaf=-0.2'') # []"
    by code_simp
  have b2: "parse_dump_line ([TAB, TAB] @ ''1:leaf=-0.2'') = Inr (2, leaf_node 1 (- (1 / 5)))"
    by code_simp
  have c1: "split_nl two_roots_dump = [''0:leaf=1''] @ ''0:leaf=2'' # []"
    by code_simp
  have c2: "parse_lines (None, [], []) [''0:leaf=1''] = Inr (Some 0, [0], [leaf_node 0 1])"
    by code_simp
  have c3: "parse_dump_line ''0:leaf=2'' = Inr (0, leaf_node 0 2)"
    by code_simp
  show ?thesis
    using parse_tree_dump_malformed [OF a1 root] a2
      parse_tree_dump_malformed [OF b1 root] b2
      parse_tree_dump_malformed [OF c1 c2] c3
    by simp
qed

section \<open>The contributions of one tree sum to its leaf value\<close>













section \<open>Branch lines\<close>

text \<open>
  C7 (as stated). A branch line with the comparison character \<^verbatim>\<open>>\<close> conforms to the
  grammar of the specification (one non-alphanumeric comparison character), but the
  pattern of the source has the literal \<^verbatim>\<open><\<close>: the line is rejected.
\<close>

theorem branch_line_other_comparison_rejected:
  "parse_dump_line ''0:[f0>0.5] yes=1,no=2,missing=1'' =
   Inl (ValueError (''Line in unexpected format: '' @ ''0:[f0>0.5] yes=1,no=2,missing=1''))"
  by code_simp

lemma takeWhile_run:
  "list_all P xs \<Longrightarrow> rest = [] \<or> \<not> P (hd rest) \<Longrightarrow>
   takeWhile P (xs @ rest) = xs \<and> dropWhile P (xs @ rest) = rest"
proof (induction xs)
  case Nil
  then show ?case by (cases rest) auto
next
  case (Cons x xs)
  then show ?case by simp
qed

lemma lit_append: "lit p (p @ s) = Some s"
  by (induction p) simp_all

lemma re_match_render: "fits its gs \<Longrightarrow> re_match its (render its gs) = Some gs"
proof (induction its gs rule: fits.induct)
  case (1 gs)
  then show ?case by (simp add: at_end_def)
next
  case (2 p its gs)
  then show ?case by (simp add: lit_append)
next
  case (3 P its g gs)
  then show ?case using takeWhile_run [of P g "render its gs"] by auto
next
  case (4 P its g gs)
  then show ?case using takeWhile_run [of P g "render its gs"] by auto
qed simp_all

lemma hd_run: "xs \<noteq> [] \<Longrightarrow> list_all P xs \<Longrightarrow> P (hd xs)"
  by (cases xs) simp_all

lemma not_digit_TAB: "\<not> is_digit TAB" by (simp add: is_digit_def TAB_def)

lemma branch_re_matches:
  assumes "node_id \<noteq> []" "list_all is_digit node_id"
    and "feature \<noteq> []" "list_all is_word feature"
    and "condition \<noteq> []" "CHR '']'' \<notin> set condition"
    and "yes_id \<noteq> []" "list_all is_digit yes_id"
    and "no_id \<noteq> []" "list_all is_digit no_id"
    and "missing_id \<noteq> []" "list_all is_digit missing_id"
  shows "re_match branch_re
           (replicate d TAB @ node_id @ '':['' @ feature @ ''<'' @ condition @ ''] yes='' @
            yes_id @ '',no='' @ no_id @ '',missing='' @ missing_id) =
         Some [replicate d TAB, node_id, feature, condition, yes_id, no_id, missing_id]"
proof -
  let ?gs = "[replicate d TAB, node_id, feature, condition, yes_id, no_id, missing_id]"
  have tab: "hd node_id \<noteq> TAB"
    using hd_run [OF assms(1,2)] not_digit_TAB by auto
  have "fits branch_re ?gs"
    using assms tab
    by (auto simp add: branch_re_def list_all_iff hd_append is_digit_def is_word_def
        is_alpha_def)
  from re_match_render [OF this] show ?thesis
    by (simp add: branch_re_def)
qed

lemma lit_Some: "lit p s = Some r \<Longrightarrow> s = p @ r"
proof (induction p s rule: lit.induct)
  case (1 s)
  then show ?case by simp
next
  case (2 p ps)
  then show ?case by simp
next
  case (3 p ps c s)
  then show ?case by (simp split: if_splits)
qed

lemma re_match_literal:
  "re_match its s = Some g \<Longrightarrow> Lit p \<in> set its \<Longrightarrow> set p \<subseteq> set s"
proof (induction its s arbitrary: g rule: re_match.induct)
  case (1 s)
  then show ?case by simp
next
  case (2 P its s)
  from "2.prems" obtain g' where "re_match its (dropWhile P s) = Some g'" and "Lit p \<in> set its"
    by auto
  from "2.IH" [OF this] have "set p \<subseteq> set (dropWhile P s)" .
  also have "\<dots> \<subseteq> set s" by (auto dest: set_dropWhileD)
  finally show ?case .
next
  case (3 P its s)
  from "3.prems" obtain g' where ne: "takeWhile P s \<noteq> []"
    and "re_match its (dropWhile P s) = Some g'" and "Lit p \<in> set its"
    by (auto split: if_splits)
  from "3.IH" [OF ne this(2,3)] have "set p \<subseteq> set (dropWhile P s)" by simp
  also have "\<dots> \<subseteq> set s" by (auto dest: set_dropWhileD)
  finally show ?case .
next
  case (4 q its s)
  from "4.prems"(1) obtain r where r: "lit q s = Some r" and m: "re_match its r = Some g"
    by (auto split: option.splits)
  from lit_Some [OF r] have s: "s = q @ r" .
  from "4.prems"(2) have "Lit p = Lit q \<or> Lit p \<in> set its" by simp
  then show ?case
  proof
    assume "Lit p = Lit q"
    with s show ?thesis by auto
  next
    assume "Lit p \<in> set its"
    from "4.IH" [OF r m this] s show ?thesis by auto
  qed
qed

lemma branch_re_needs_less: "CHR ''<'' \<notin> set s \<Longrightarrow> re_match branch_re s = None"
proof (rule ccontr)
  assume a: "CHR ''<'' \<notin> set s" and "re_match branch_re s \<noteq> None"
  then obtain g where "re_match branch_re s = Some g" by auto
  from re_match_literal [OF this, of "''<''"] have "CHR ''<'' \<in> set s"
    by (simp add: branch_re_def)
  with a show False by simp
qed

lemma leaf_re_no_bracket:
  assumes "node_id \<noteq> []" "list_all is_digit node_id"
  shows "re_match leaf_re (replicate d TAB @ node_id @ '':['' @ rest) = None"
proof -
  have tab: "\<not> (hd (node_id @ '':['' @ rest) = TAB)"
    using hd_run [OF assms] not_digit_TAB assms(1) by (cases node_id) auto
  have t: "takeWhile (\<lambda>c. c = TAB) (replicate d TAB @ (node_id @ '':['' @ rest)) = replicate d TAB \<and>
      dropWhile (\<lambda>c. c = TAB) (replicate d TAB @ (node_id @ '':['' @ rest)) =
        node_id @ '':['' @ rest"
    by (rule takeWhile_run) (use tab in \<open>simp_all add: list_all_iff\<close>)
  have "\<not> is_digit (hd ('':['' @ rest))" by (simp add: is_digit_def)
  then have n: "takeWhile is_digit (node_id @ ('':['' @ rest)) = node_id \<and>
      dropWhile is_digit (node_id @ ('':['' @ rest)) = '':['' @ rest"
    by (intro takeWhile_run [OF assms(2)]) simp
  from t n assms(1) show ?thesis
    by (simp add: leaf_re_def)
qed

text \<open>
  C7 (amended). Take a line of the branch shape: \<open>d\<close> tabs, a node id, \<^verbatim>\<open>:[\<close>, a feature, a
  comparison character, a threshold, \<^verbatim>\<open>] yes=\<close>, \<^verbatim>\<open>,no=\<close> and \<^verbatim>\<open>,missing=\<close> with their ids,
  all four ids being non-empty runs of digits. If the comparison character is \<^verbatim>\<open><\<close>, the
  feature a non-empty run of letters, digits and underscores, and the threshold a
  decimal literal without \<^verbatim>\<open>]\<close>, the line is parsed: the depth is the number of tabs and
  the node carries the id, the feature, the threshold and the yes, no and missing ids.
  If there is no \<^verbatim>\<open><\<close> in the feature, the comparison character and the threshold, the
  line matches neither pattern and is rejected with the \<^verbatim>\<open>ValueError\<close> that carries it.
\<close>

theorem parse_dump_line_branch:
  assumes "node_id \<noteq> []" "list_all is_digit node_id"
    and "yes_id \<noteq> []" "list_all is_digit yes_id"
    and "no_id \<noteq> []" "list_all is_digit no_id"
    and "missing_id \<noteq> []" "list_all is_digit missing_id"
  shows "(feature \<noteq> [] \<and> list_all is_word feature \<and>
          condition \<noteq> [] \<and> CHR '']'' \<notin> set condition \<and>
          float_of_string condition = Some threshold \<longrightarrow>
          parse_dump_line
            (replicate d TAB @ node_id @ '':['' @ feature @ ''<'' @ condition @ ''] yes='' @
             yes_id @ '',no='' @ no_id @ '',missing='' @ missing_id) =
          Inr (d, branch_node d (int_of_digits node_id) feature threshold
                    (int_of_digits yes_id) (int_of_digits no_id) (int_of_digits missing_id))) \<and>
         (CHR ''<'' \<notin> set (feature @ [op] @ condition) \<longrightarrow>
          parse_dump_line
            (replicate d TAB @ node_id @ '':['' @ feature @ [op] @ condition @ ''] yes='' @
             yes_id @ '',no='' @ no_id @ '',missing='' @ missing_id) =
          Inl (ValueError (''Line in unexpected format: '' @
            replicate d TAB @ node_id @ '':['' @ feature @ [op] @ condition @ ''] yes='' @
            yes_id @ '',no='' @ no_id @ '',missing='' @ missing_id)))"
proof (intro conjI impI)
  assume a: "feature \<noteq> [] \<and> list_all is_word feature \<and>
          condition \<noteq> [] \<and> CHR '']'' \<notin> set condition \<and>
          float_of_string condition = Some threshold"
  then have f: "feature \<noteq> []" "list_all is_word feature" "condition \<noteq> []"
    "CHR '']'' \<notin> set condition" and fl: "float_of_string condition = Some threshold"
    by simp_all
  from branch_re_matches [OF assms(1,2) f assms(3-8), of d] fl
  show "parse_dump_line
            (replicate d TAB @ node_id @ '':['' @ feature @ ''<'' @ condition @ ''] yes='' @
             yes_id @ '',no='' @ no_id @ '',missing='' @ missing_id) =
          Inr (d, branch_node d (int_of_digits node_id) feature threshold
                    (int_of_digits yes_id) (int_of_digits no_id) (int_of_digits missing_id))"
    by (simp add: parse_dump_line_def py_float_def)
next
  let ?line = "replicate d TAB @ node_id @ '':['' @ feature @ [op] @ condition @ ''] yes='' @
             yes_id @ '',no='' @ no_id @ '',missing='' @ missing_id"
  assume a: "CHR ''<'' \<notin> set (feature @ [op] @ condition)"
  have nd: "CHR ''<'' \<notin> set ds" if "list_all is_digit ds" for ds
    using that by (auto simp: list_all_iff is_digit_def)
  have "CHR ''<'' \<notin> set ?line"
    using a nd [OF assms(2)] nd [OF assms(4)] nd [OF assms(6)] nd [OF assms(8)]
    by (auto simp: TAB_def)
  from branch_re_needs_less [OF this] have b: "re_match branch_re ?line = None" .
  from leaf_re_no_bracket [OF assms(1,2), of d
      "feature @ [op] @ condition @ ''] yes='' @ yes_id @ '',no='' @ no_id @
       '',missing='' @ missing_id"]
  have l: "re_match leaf_re ?line = None" by simp
  from b l show "parse_dump_line ?line = Inl (ValueError (''Line in unexpected format: '' @ ?line))"
    by (simp add: parse_dump_line_def)
qed

theorem parse_dump_line_branch_witness:
  "parse_dump_line ([TAB] @ ''12:[f3<-1.5e2] yes=13,no=14,missing=13'') =
     Inr (1, branch_node 1 12 ''f3'' (- 150) 13 14 13) \<and>
   parse_dump_line ([TAB] @ ''12:[f3>-1.5e2] yes=13,no=14,missing=13'') =
     Inl (ValueError (''Line in unexpected format: '' @
       [TAB] @ ''12:[f3>-1.5e2] yes=13,no=14,missing=13''))"
proof -
  have f: "float_of_string ''-1.5e2'' = Some (- 150)"
    by code_simp
  have d: "''12'' \<noteq> [] \<and> list_all is_digit ''12'' \<and> ''13'' \<noteq> [] \<and> list_all is_digit ''13'' \<and>
      ''14'' \<noteq> [] \<and> list_all is_digit ''14''"
    by (simp add: is_digit_def)
  have w: "''f3'' \<noteq> [] \<and> list_all is_word ''f3'' \<and> ''-1.5e2'' \<noteq> [] \<and>
      CHR '']'' \<notin> set ''-1.5e2'' \<and> CHR ''<'' \<notin> set (''f3'' @ [CHR ''>''] @ ''-1.5e2'')"
    by (simp add: is_digit_def is_word_def is_alpha_def)
  have i: "int_of_digits ''12'' = 12 \<and> int_of_digits ''13'' = 13 \<and> int_of_digits ''14'' = 14"
    by code_simp
  from parse_dump_line_branch [where node_id = "''12''" and yes_id = "''13''"
      and no_id = "''14''" and missing_id = "''13''" and feature = "''f3''"
      and condition = "''-1.5e2''" and threshold = "- 150" and d = 1 and op = "CHR ''>''"]
    f d w i
  show ?thesis by simp
qed

section \<open>Split features that cannot be indexed\<close>












section \<open>The missing id does not interfere\<close>

lemma nth_beyond: "length xs \<le> i \<Longrightarrow> xs ! i = [] ! (i - length xs)"
proof (induction xs arbitrary: i)
  case Nil
  then show ?case by simp
next
  case (Cons x xs)
  then show ?case by (cases i) simp_all
qed

lemma heap_rel_length: "heap_rel h1 h2 \<Longrightarrow> length h1 = length h2"
  unfolding heap_rel_def by (rule map_eq_imp_length_eq)

lemma heap_rel_nth:
  assumes "heap_rel h1 h2"
  shows "forget_missing (h1 ! i) = forget_missing (h2 ! i)"
proof (cases "i < length h1")
  case True
  with assms heap_rel_length [OF assms] show ?thesis
    unfolding heap_rel_def by (metis nth_map)
next
  case False
  with heap_rel_length [OF assms] have "h1 ! i = h2 ! i"
    using nth_beyond [of h1 i] nth_beyond [of h2 i] by simp
  then show ?thesis by simp
qed

lemma forget_fields:
  "forget_missing a = forget_missing b \<Longrightarrow>
   leaf a = leaf b \<and> children a = children b \<and> parent a = parent b \<and>
   split a = split b \<and> nodeid a = nodeid b"
  unfolding forget_missing_def
  by (cases a, cases b) simp

lemmas heap_rel_fields = forget_fields [OF heap_rel_nth]

lemma heap_rel_update:
  assumes "heap_rel h1 h2" and "forget_missing n1 = forget_missing n2"
  shows "heap_rel (h1[c := n1]) (h2[c := n2])"
  using assms unfolding heap_rel_def by (simp add: map_update)

lemma heap_rel_refl: "heap_rel h h"
  by (simp add: heap_rel_def)

lemma heap_rel_leaf: "heap_rel h1 h2 \<Longrightarrow> leaf (h1 ! i) = leaf (h2 ! i)"
  using heap_rel_fields [of h1 h2 i] by blast

lemma heap_rel_children: "heap_rel h1 h2 \<Longrightarrow> children (h1 ! i) = children (h2 ! i)"
  using heap_rel_fields [of h1 h2 i] by blast

lemma heap_rel_parent: "heap_rel h1 h2 \<Longrightarrow> parent (h1 ! i) = parent (h2 ! i)"
  using heap_rel_fields [of h1 h2 i] by blast

lemma heap_rel_split: "heap_rel h1 h2 \<Longrightarrow> split (h1 ! i) = split (h2 ! i)"
  using heap_rel_fields [of h1 h2 i] by blast

lemma heap_rel_nodeid: "heap_rel h1 h2 \<Longrightarrow> nodeid (h1 ! i) = nodeid (h2 ! i)"
  using heap_rel_fields [of h1 h2 i] by blast

lemma mean_leafs_rel:
  assumes "heap_rel h1 h2"
  shows "mean_leafs h1 cs = mean_leafs h2 cs"
proof -
  have eq: "leaf (h1 ! c) = leaf (h2 ! c)" for c
    by (rule heap_rel_leaf [OF assms])
  show ?thesis by (simp add: mean_leafs_def eq)
qed

lemma rel_sum_eqE [consumes 1, case_names Inl Inr]:
  assumes "rel_sum (=) R x y"
    and "\<And>e. x = Inl e \<Longrightarrow> y = Inl e \<Longrightarrow> P"
    and "\<And>a b. x = Inr a \<Longrightarrow> y = Inr b \<Longrightarrow> R a b \<Longrightarrow> P"
  shows P
  using assms by (cases x; cases y) auto

lemma forget_set_parent:
  "forget_missing a = forget_missing b \<Longrightarrow>
   forget_missing (a\<lparr>parent := x\<rparr>) = forget_missing (b\<lparr>parent := x\<rparr>)"
  unfolding forget_missing_def by (cases a, cases b) simp

lemma forget_set_leaf:
  "forget_missing a = forget_missing b \<Longrightarrow>
   forget_missing (a\<lparr>leaf := x\<rparr>) = forget_missing (b\<lparr>leaf := x\<rparr>)"
  unfolding forget_missing_def by (cases a, cases b) simp

lemma heap_rel_set_parent:
  "heap_rel h1 h2 \<Longrightarrow>
   heap_rel (h1[c := (h1 ! c)\<lparr>parent := x\<rparr>]) (h2[c := (h2 ! c)\<lparr>parent := x\<rparr>])"
  by (rule heap_rel_update, assumption, rule forget_set_parent, rule heap_rel_nth)

lemma heap_rel_set_leaf:
  "heap_rel h1 h2 \<Longrightarrow>
   heap_rel (h1[c := (h1 ! c)\<lparr>leaf := x\<rparr>]) (h2[c := (h2 ! c)\<lparr>leaf := x\<rparr>])"
  by (rule heap_rel_update, assumption, rule forget_set_leaf, rule heap_rel_nth)


lemma heap_rel_snoc:
  "heap_rel h1 h2 \<Longrightarrow> forget_missing n1 = forget_missing n2 \<Longrightarrow>
   heap_rel (h1 @ [n1]) (h2 @ [n2])"
  by (simp add: heap_rel_def)

lemma forget_set_children:
  "forget_missing a = forget_missing b \<Longrightarrow>
   forget_missing (a\<lparr>children := children a @ [x]\<rparr>) =
   forget_missing (b\<lparr>children := children b @ [x]\<rparr>)"
  unfolding forget_missing_def by (cases a, cases b) simp

lemma heap_rel_append_child:
  "heap_rel h1 h2 \<Longrightarrow> heap_rel (append_child h1 t a) (append_child h2 t a)"
  unfolding append_child_def
  by (rule heap_rel_update, assumption, rule forget_set_children, rule heap_rel_nth)

lemma re_match_branch_empty: "re_match branch_re [] = None"
  by (simp add: branch_re_def)

lemma take6_nth:
  assumes "take 6 g1 = take 6 g2" and "k < 6"
  shows "g1 ! k = g2 ! k"
proof -
  from assms(1) have "take 6 g1 ! k = take 6 g2 ! k" by simp
  with assms(2) show ?thesis by simp
qed

lemma forget_branch_node:
  "forget_missing (branch_node d i f c y n m1) = forget_missing (branch_node d i f c y n m2)"
  by (simp add: forget_missing_def branch_node_def)

lemma parse_dump_line_rel:
  assumes "same_but_missing l1 l2"
  shows "rel_sum (=) (rel_prod (=) (\<lambda>a b. forget_missing a = forget_missing b))
           (parse_dump_line l1) (parse_dump_line l2)"
proof (cases "l1 = l2")
  case True
  then show ?thesis by (cases "parse_dump_line l2") auto
next
  case False
  with assms obtain g1 g2 where
    m1: "re_match branch_re l1 = Some g1" and
    m2: "re_match branch_re l2 = Some g2" and
    t: "take 6 g1 = take 6 g2"
    by (auto simp: same_but_missing_def split: option.splits)
  have eqs: "g1 ! 0 = g2 ! 0" "g1 ! Suc 0 = g2 ! Suc 0" "g1 ! 2 = g2 ! 2"
    "g1 ! 3 = g2 ! 3" "g1 ! 4 = g2 ! 4" "g1 ! 5 = g2 ! 5"
    using take6_nth [OF t, of 0] take6_nth [OF t, of 1] take6_nth [OF t, of 2]
      take6_nth [OF t, of 3] take6_nth [OF t, of 4] take6_nth [OF t, of 5]
    by simp_all
  show ?thesis
    by (cases "py_float (g2 ! 3)")
      (simp_all add: parse_dump_line_def m1 m2 eqs forget_branch_node)
qed

lemma same_but_missing_empty: "same_but_missing l1 l2 \<Longrightarrow> (l1 = []) = (l2 = [])"
  by (auto simp: same_but_missing_def re_match_branch_empty split: option.splits)

lemma parse_step_rel:
  assumes h: "heap_rel h1 h2" and l: "same_but_missing l1 l2"
  shows "rel_sum (=) (rel_prod (=) (rel_prod (=) heap_rel))
           (parse_step (r, s, h1) l1) (parse_step (r, s, h2) l2)"
proof (cases "l1 = []")
  case True
  with same_but_missing_empty [OF l] h show ?thesis by (simp add: parse_step_def)
next
  case False
  with same_but_missing_empty [OF l] have ne: "l1 \<noteq> []" "l2 \<noteq> []" by simp_all
  note len = heap_rel_length [OF h]
  from parse_dump_line_rel [OF l] show ?thesis
  proof (cases rule: rel_sum_eqE)
    case (Inl e)
    with ne show ?thesis by (simp add: parse_step_def)
  next
    case (Inr x y)
    obtain d n1 where x: "x = (d, n1)" by (cases x)
    obtain d' n2 where y: "y = (d', n2)" by (cases y)
    from Inr x y have dd: "d' = d" and f: "forget_missing n1 = forget_missing n2"
      by simp_all
    have snoc: "heap_rel (h1 @ [n1]) (h2 @ [n2])" by (rule heap_rel_snoc [OF h f])
    have ac: "heap_rel (append_child (h1 @ [n1]) t a) (append_child (h2 @ [n2]) t a)" for t a
      by (rule heap_rel_append_child [OF snoc])
    from Inr x y dd ne len snoc ac show ?thesis
      by (simp add: parse_step_def Let_def)
  qed
qed

lemma parse_lines_rel:
  assumes "list_all2 same_but_missing ls1 ls2"
  shows "heap_rel h1 h2 \<Longrightarrow>
         rel_sum (=) (rel_prod (=) (rel_prod (=) heap_rel))
           (parse_lines (r, s, h1) ls1) (parse_lines (r, s, h2) ls2)"
  using assms
proof (induction arbitrary: r s h1 h2 rule: list_all2_induct)
  case Nil
  then show ?case by simp
next
  case (Cons l1 ls1 l2 ls2)
  from parse_step_rel [OF Cons.prems Cons.hyps(1), of r s] show ?case
  proof (cases rule: rel_sum_eqE)
    case (Inl e)
    then show ?thesis by simp
  next
    case (Inr x y)
    obtain r1 s1 k1 where x: "x = (r1, s1, k1)" by (cases x)
    obtain r2 s2 k2 where y: "y = (r2, s2, k2)" by (cases y)
    from Inr x y have "r2 = r1" "s2 = s1" "heap_rel k1 k2" by simp_all
    with Cons.IH [of k1 k2 r1 s1] Inr x y show ?thesis by simp
  qed
qed

lemma parse_tree_dump_rel:
  assumes "same_dump d1 d2"
  shows "rel_sum (=) (rel_prod (=) heap_rel) (parse_tree_dump d1) (parse_tree_dump d2)"
proof -
  have e: "heap_rel [] []" by (rule heap_rel_refl)
  from assms have "list_all2 same_but_missing (split_nl d1) (split_nl d2)"
    by (simp add: same_dump_def)
  from parse_lines_rel [OF this e, of None "[]"] show ?thesis
    unfolding parse_tree_dump_def by (cases rule: rel_sum_eqE) auto
qed

lemma index_children_rel:
  assumes IH: "\<And>h1 h2 c. heap_rel h1 h2 \<Longrightarrow>
    rel_sum (=) (rel_prod (=) heap_rel) (indexed_leafs k h1 c) (indexed_leafs k h2 c)"
  shows "heap_rel h1 h2 \<Longrightarrow>
    rel_sum (=) (rel_prod (=) heap_rel)
      (index_children k p cs (idx, h1)) (index_children k p cs (idx, h2))"
proof (induction cs arbitrary: idx h1 h2)
  case Nil
  then show ?case by simp
next
  case (Cons c cs)
  define k1 where "k1 = h1[c := (h1 ! c)\<lparr>parent := Some p\<rparr>]"
  define k2 where "k2 = h2[c := (h2 ! c)\<lparr>parent := Some p\<rparr>]"
  have k: "heap_rel k1 k2"
    unfolding k1_def k2_def by (rule heap_rel_set_parent [OF Cons.prems])
  have lf: "leaf (k1 ! c) = leaf (k2 ! c)" by (rule heap_rel_leaf [OF k])
  have ni: "nodeid (k1 ! c) = nodeid (k2 ! c)" by (rule heap_rel_nodeid [OF k])
  have s1: "index_children k p (c # cs) (idx, h1) =
      (if leaf (k1 ! c) \<noteq> None
       then index_children k p cs (idx(nodeid (k1 ! c) \<mapsto> c), k1)
       else (case indexed_leafs k k1 c of
               Inl e \<Rightarrow> Inl e
             | Inr (sub, h') \<Rightarrow> index_children k p cs (idx ++ sub, h')))"
    unfolding k1_def by (simp add: Let_def)
  have s2: "index_children k p (c # cs) (idx, h2) =
      (if leaf (k2 ! c) \<noteq> None
       then index_children k p cs (idx(nodeid (k2 ! c) \<mapsto> c), k2)
       else (case indexed_leafs k k2 c of
               Inl e \<Rightarrow> Inl e
             | Inr (sub, h') \<Rightarrow> index_children k p cs (idx ++ sub, h')))"
    unfolding k2_def by (simp add: Let_def)
  show ?case
  proof (cases "leaf (k2 ! c) = None")
    case False
    then have e1: "index_children k p (c # cs) (idx, h1) =
        index_children k p cs (idx(nodeid (k2 ! c) \<mapsto> c), k1)"
      unfolding s1 by (simp add: lf ni)
    from False have e2: "index_children k p (c # cs) (idx, h2) =
        index_children k p cs (idx(nodeid (k2 ! c) \<mapsto> c), k2)"
      unfolding s2 by simp
    show ?thesis unfolding e1 e2 by (rule Cons.IH [OF k])
  next
    case True
    from IH [OF k, of c] show ?thesis
    proof (cases rule: rel_sum_eqE)
      case (Inl e)
      with True show ?thesis unfolding s1 s2 by (simp add: lf)
    next
      case (Inr x y)
      obtain sub m1 where x: "x = (sub, m1)" by (cases x)
      obtain sub' m2 where y: "y = (sub', m2)" by (cases y)
      from Inr x y have sub: "sub' = sub" and m: "heap_rel m1 m2" by simp_all
      from True Inr(1) x have e1: "index_children k p (c # cs) (idx, h1) =
          index_children k p cs (idx ++ sub, m1)"
        unfolding s1 by (simp add: lf)
      from True Inr(2) y sub have e2: "index_children k p (c # cs) (idx, h2) =
          index_children k p cs (idx ++ sub, m2)"
        unfolding s2 by simp
      show ?thesis unfolding e1 e2 by (rule Cons.IH [OF m])
    qed
  qed
qed

lemma indexed_leafs_rel:
  "heap_rel h1 h2 \<Longrightarrow>
   rel_sum (=) (rel_prod (=) heap_rel) (indexed_leafs k h1 p) (indexed_leafs k h2 p)"
proof (induction k arbitrary: h1 h2 p)
  case 0
  show ?case by simp
next
  case (Suc k)
  note ch = heap_rel_children [OF Suc.prems, of p]
  have ic: "rel_sum (=) (rel_prod (=) heap_rel)
      (index_children k p cs (Map.empty, h1)) (index_children k p cs (Map.empty, h2))" for cs
    using Suc.IH Suc.prems by (rule index_children_rel)
  show ?case
  proof (cases "children (h2 ! p) = []")
    case True
    with ch show ?thesis by simp
  next
    case False
    from ic [of "children (h2 ! p)"] show ?thesis
    proof (cases rule: rel_sum_eqE)
      case (Inl e)
      with False ch show ?thesis by simp
    next
      case (Inr x y)
      obtain idx m1 where x: "x = (idx, m1)" by (cases x)
      obtain idx' m2 where y: "y = (idx', m2)" by (cases y)
      from Inr x y have i: "idx' = idx" and m: "heap_rel m1 m2" by simp_all
      note ch2 = heap_rel_children [OF m, of p]
      note ml = mean_leafs_rel [OF m, of "children (m2 ! p)"]
      have upd: "heap_rel (m1[p := (m1 ! p)\<lparr>leaf := v\<rparr>]) (m2[p := (m2 ! p)\<lparr>leaf := v\<rparr>])"
        for v by (rule heap_rel_set_leaf [OF m])
      show ?thesis
        by (cases "mean_leafs m2 (children (m2 ! p))")
          (use False ch Inr x y i ch2 ml upd in simp_all)
    qed
  qed
qed

lemma parent_path_rel:
  "heap_rel h1 h2 \<Longrightarrow> parent_path h1 path = parent_path h2 path"
proof (induction h1 path rule: parent_path.induct)
  case (1 h path)
  note par = heap_rel_parent [OF "1.prems", of "last path"]
  note len = heap_rel_length [OF "1.prems"]
  note u1 = parent_path.simps [of h path] and u2 = parent_path.simps [of h2 path]
  show ?case
  proof (cases "parent (h2 ! last path)")
    case None
    with par show ?thesis by (simp add: u1 u2 del: parent_path.simps)
  next
    case (Some q)
    show ?thesis
    proof (cases "length h < length path")
      case True
      with Some par len show ?thesis by (simp add: u1 u2 del: parent_path.simps)
    next
      case False
      from par Some have "parent (h ! last path) = Some q" by simp
      from "1.IH" [OF this False "1.prems"]
      have "parent_path h (path @ [q]) = parent_path h2 (path @ [q])" .
      with par Some False len show ?thesis by (simp add: u1 u2 del: parent_path.simps)
    qed
  qed
qed

lemma leaf_delta_rel: "heap_rel h1 h2 \<Longrightarrow> leaf_delta h1 p nd = leaf_delta h2 p nd"
  using heap_rel_leaf [of h1 h2 p] heap_rel_leaf [of h1 h2 nd]
  by (simp add: leaf_delta_def split: option.splits)

lemma feature_idx_of_rel: "heap_rel h1 h2 \<Longrightarrow> feature_idx_of h1 p = feature_idx_of h2 p"
  using heap_rel_split [of h1 h2 p] by (simp add: feature_idx_of_def)

lemma split_deltas_rel:
  "heap_rel h1 h2 \<Longrightarrow> split_deltas h1 ps fw = split_deltas h2 ps fw"
proof (induction ps arbitrary: fw)
  case Nil
  show ?case by simp
next
  case (Cons a ps)
  obtain p nd where a: "a = (p, nd)" by (cases a)
  from Cons.IH [OF Cons.prems] show ?case
    by (simp add: a feature_idx_of_rel [OF Cons.prems] leaf_delta_rel [OF Cons.prems]
        split: sum.splits)
qed

lemma add_bias_rel: "heap_rel h1 h2 \<Longrightarrow> add_bias h1 bias path fw = add_bias h2 bias path fw"
  using heap_rel_leaf [of h1 h2 "hd path"]
  by (simp add: add_bias_def split: sum.splits option.splits)

lemma decompose_rel: "heap_rel h1 h2 \<Longrightarrow> decompose h1 bias l fw = decompose h2 bias l fw"
  by (simp add: decompose_def parent_path_rel [of h1 h2] split_deltas_rel [of h1 h2]
      add_bias_rel [of h1 h2] del: parent_path.simps cong: sum.case_cong)

lemma lookup_leaf_rel:
  "heap_rel h1 h2 \<Longrightarrow> lookup_leaf indexed h1 leaf_id = lookup_leaf indexed h2 leaf_id"
  by (simp add: lookup_leaf_def heap_rel_leaf [of h1 h2] cong: option.case_cong)

lemma index_dump_rel:
  assumes "same_dump d1 d2"
  shows "rel_sum (=) (rel_prod (=) heap_rel) (index_dump limit d1) (index_dump limit d2)"
  using parse_tree_dump_rel [OF assms]
proof (cases rule: rel_sum_eqE)
  case (Inl e)
  then show ?thesis by (simp add: index_dump_def)
next
  case (Inr x y)
  obtain r h1 where x: "x = (r, h1)" by (cases x)
  obtain r' h2 where y: "y = (r', h2)" by (cases y)
  from Inr x y have r: "r' = r" and h: "heap_rel h1 h2" by simp_all
  show ?thesis
  proof (cases r)
    case None
    with Inr x y r show ?thesis by (simp add: index_dump_def)
  next
    case (Some a)
    with Inr x y r indexed_leafs_rel [OF h, of limit a] show ?thesis
      by (simp add: index_dump_def)
  qed
qed

lemma tree_step_rel:
  assumes "same_dump d1 d2"
  shows "tree_step limit bias acc (d1, i) = tree_step limit bias acc (d2, i)"
  using index_dump_rel [OF assms, of limit]
proof (cases rule: rel_sum_eqE)
  case (Inl e)
  then show ?thesis by (simp add: tree_step_def)
next
  case (Inr x y)
  obtain idx h1 where x: "x = (idx, h1)" by (cases x)
  obtain idx' h2 where y: "y = (idx', h2)" by (cases y)
  from Inr x y have r: "idx' = idx" and h: "heap_rel h1 h2" by simp_all
  from Inr x y r show ?thesis
    by (simp add: tree_step_def lookup_leaf_rel [OF h] decompose_rel [OF h]
        split: sum.splits prod.splits)
qed

lemma same_but_missing_render:
  assumes "fits branch_re (gs @ [m1])" and "fits branch_re (gs @ [m2])" and "length gs = 6"
  shows "same_but_missing (render branch_re (gs @ [m1])) (render branch_re (gs @ [m2]))"
  using re_match_render [OF assms(1)] re_match_render [OF assms(2)] assms(3)
  by (simp add: same_but_missing_def)

text \<open>
  C9. Let two dumps be the same but for the values of their \<^verbatim>\<open>missing=\<close> fields. Then
  for every leaf id, recursion limit and feature names the decomposition of the one
  dump and of the other have the same outcome: the same score and the same vector when
  they return, the same exception when they raise. The stores built from the two dumps
  differ in the \<^verbatim>\<open>missing\<close> entries only, which nothing after the parser reads.
\<close>

theorem missing_id_noninterference:
  assumes "same_dump d1 d2"
  shows "target_feature_weights limit [leaf_id] [d1] fnames =
         target_feature_weights limit [leaf_id] [d2] fnames"
  by (simp add: target_feature_weights_def tree_step_rel [OF assms])

theorem missing_id_noninterference_witness:
  "same_dump scenario_dump_indented scenario_dump_missing_2 \<and>
   scenario_dump_indented \<noteq> scenario_dump_missing_2 \<and>
   target_feature_weights 1000 [2] [scenario_dump_missing_2] scenario_names =
     Inr (2 / 5, [0, 2 / 5])"
proof -
  have s: "same_dump scenario_dump_indented scenario_dump_missing_2" by code_simp
  have ne: "scenario_dump_indented \<noteq> scenario_dump_missing_2" by code_simp
  have run: "target_feature_weights 1000 [2] [scenario_dump_indented] scenario_names =
      Inr (2 / 5, [0, 2 / 5])"
    by code_simp
  from missing_id_noninterference [OF s, of 1000 2 scenario_names] run s ne
  show ?thesis by simp
qed

end
